theory Spec2Isabelle
  imports Complex_Main "HOL-Library.Multiset" "HOL-Library.Log_Nat"
begin

section \<open>JavaScript numbers\<close>

text \<open>
  Every quantity of \<^verbatim>\<open>main.js\<close> is a JavaScript Number. The branches of the
  program are decided by the special values of that type (a division by zero gives
  \<^verbatim>\<open>Infinity\<close> or \<^verbatim>\<open>NaN\<close>, a comparison with \<^verbatim>\<open>NaN\<close> is false), so they are
  part of the model. A finite number is a rational. The operations \<open>js_sub\<close>,
  \<open>js_mul\<close> and \<open>js_div\<close> below give the exact result, and \<open>binary64\<close> rounds an
  exact result to the nearest number of the binary64 format, so that the operation of
  the language is \<open>binary64\<close> of the exact one. The need-love comparator branches on a
  quotient of quotients, where the rounding decides the branch at the bounds of its
  window: its arithmetic is the rounded one. In the estimates and percentages the
  rounding is left out (it can move an exact half-cent tie to the other cent), and so
  it is in the comparator by time, where the sign of the exact difference of two
  finite numbers is the sign of the rounded one. The negative zero is not modelled
  (the quantities of the program are durations and counts, none of them negative).
\<close>

datatype jsnum = NaN | Fin rat | PosInf | NegInf

text \<open>The sign of a number that is not \<^verbatim>\<open>NaN\<close>, and an infinity of a given sign.\<close>

fun js_nonneg :: "jsnum \<Rightarrow> bool" where
  "js_nonneg (Fin x) = (0 \<le> x)"
| "js_nonneg PosInf = True"
| "js_nonneg _ = False"

definition js_inf :: "bool \<Rightarrow> jsnum" where
  "js_inf positive = (if positive then PosInf else NegInf)"

text \<open>\<^verbatim>\<open>a - b\<close>: the difference of two infinities of the same sign is \<^verbatim>\<open>NaN\<close>.\<close>

fun js_sub :: "jsnum \<Rightarrow> jsnum \<Rightarrow> jsnum" where
  "js_sub NaN _ = NaN"
| "js_sub _ NaN = NaN"
| "js_sub (Fin x) (Fin y) = Fin (x - y)"
| "js_sub (Fin x) PosInf = NegInf"
| "js_sub (Fin x) NegInf = PosInf"
| "js_sub PosInf PosInf = NaN"
| "js_sub PosInf _ = PosInf"
| "js_sub NegInf NegInf = NaN"
| "js_sub NegInf _ = NegInf"

text \<open>\<^verbatim>\<open>a * b\<close>: zero times an infinity is \<^verbatim>\<open>NaN\<close>.\<close>

fun js_mul :: "jsnum \<Rightarrow> jsnum \<Rightarrow> jsnum" where
  "js_mul NaN _ = NaN"
| "js_mul _ NaN = NaN"
| "js_mul (Fin x) (Fin y) = Fin (x * y)"
| "js_mul (Fin x) b = (if x = 0 then NaN else js_inf (js_nonneg b = (0 < x)))"
| "js_mul a (Fin y) = (if y = 0 then NaN else js_inf (js_nonneg a = (0 < y)))"
| "js_mul a b = js_inf (js_nonneg a = js_nonneg b)"

text \<open>
  \<^verbatim>\<open>a / b\<close>: a non-zero number over zero is an infinity, zero over zero and an
  infinity over an infinity are \<^verbatim>\<open>NaN\<close>, a finite number over an infinity is zero.
\<close>

fun js_div :: "jsnum \<Rightarrow> jsnum \<Rightarrow> jsnum" where
  "js_div NaN _ = NaN"
| "js_div _ NaN = NaN"
| "js_div (Fin x) (Fin y) =
     (if y = 0 then (if x = 0 then NaN else js_inf (0 < x)) else Fin (x / y))"
| "js_div (Fin x) _ = Fin 0"
| "js_div a (Fin y) = js_inf (js_nonneg a = (0 \<le> y))"
| "js_div _ _ = NaN"

text \<open>
  The relational operators. \<^verbatim>\<open>a < b\<close> is false when an operand is \<^verbatim>\<open>NaN\<close>;
  \<^verbatim>\<open>a > b\<close> is \<^verbatim>\<open>b < a\<close>; \<^verbatim>\<open>a <= b\<close> is true when \<^verbatim>\<open>b < a\<close> is false and
  no operand is \<^verbatim>\<open>NaN\<close>, and \<^verbatim>\<open>a >= b\<close> likewise from \<^verbatim>\<open>a < b\<close>.
\<close>

fun js_lt :: "jsnum \<Rightarrow> jsnum \<Rightarrow> bool" where
  "js_lt NaN _ = False"
| "js_lt _ NaN = False"
| "js_lt (Fin x) (Fin y) = (x < y)"
| "js_lt (Fin x) PosInf = True"
| "js_lt (Fin x) NegInf = False"
| "js_lt PosInf _ = False"
| "js_lt NegInf NegInf = False"
| "js_lt NegInf _ = True"

definition js_gt :: "jsnum \<Rightarrow> jsnum \<Rightarrow> bool" where
  "js_gt a b = js_lt b a"

definition js_le :: "jsnum \<Rightarrow> jsnum \<Rightarrow> bool" where
  "js_le a b = (a \<noteq> NaN \<and> b \<noteq> NaN \<and> \<not> js_lt b a)"

definition js_ge :: "jsnum \<Rightarrow> jsnum \<Rightarrow> bool" where
  "js_ge a b = (a \<noteq> NaN \<and> b \<noteq> NaN \<and> \<not> js_lt a b)"

subsection \<open>Rounding to binary64\<close>

text \<open>
  The integer nearest to a rational, the even one of two that are equally near.
\<close>

definition round_half_even :: "rat \<Rightarrow> int" where
  "round_half_even m =
     (let f = \<lfloor>m\<rfloor>; r = m - of_int f
      in if r < 1 / 2 then f else if 1 / 2 < r then f + 1 else if even f then f else f + 1)"

text \<open>
  The binary exponent of a positive rational \<open>a\<close>: the integer \<open>e\<close> with
  \<open>2\<^sup>e \<le> a < 2\<^sup>e\<^sup>+\<^sup>1\<close>, from the number of bits of the integer part of \<open>a\<close> or of
  \<open>1 / a\<close>.
\<close>

definition log2_floor :: "rat \<Rightarrow> int" where
  "log2_floor a =
     (if 1 \<le> a then bitlen \<lfloor>a\<rfloor> - 1
      else (let d = 1 - bitlen \<lfloor>1 / a\<rfloor> in if 2 powi d \<le> a then d else d - 1))"

text \<open>
  Round to nearest, ties to even, in binary64: 53 significant bits, exponents from
  \<open>-1022\<close> (below it the numbers are subnormal, multiples of \<open>2\<^sup>-\<^sup>1\<^sup>0\<^sup>7\<^sup>4\<close>) to \<open>1023\<close>
  (a result of \<open>2\<^sup>1\<^sup>0\<^sup>2\<^sup>4\<close> or more is an infinity).
\<close>

definition binary64_overflow :: rat where
  "binary64_overflow = 2 ^ 1024"

definition binary64_rat :: "rat \<Rightarrow> jsnum" where
  "binary64_rat q =
     (if q = 0 then Fin 0
      else
        (let a = \<bar>q\<bar>;
             u = max (log2_floor a) (- 1022) - 52;
             r = of_int (round_half_even (a / 2 powi u)) * 2 powi u
         in if binary64_overflow \<le> r then js_inf (0 < q)
            else Fin (if q < 0 then - r else r)))"

fun binary64 :: "jsnum \<Rightarrow> jsnum" where
  "binary64 (Fin q) = binary64_rat q"
| "binary64 x = x"

text \<open>The global \<^verbatim>\<open>isNaN\<close>, on a Number.\<close>

definition isNaN :: "jsnum \<Rightarrow> bool" where
  "isNaN number = (number = NaN)"


subsection \<open>Number.prototype.toFixed(2)\<close>

definition digit_char :: "nat \<Rightarrow> char" where
  "digit_char d = ''0123456789'' ! (d mod 10)"

fun decimal :: "nat \<Rightarrow> string" where
  "decimal n = (if n < 10 then [digit_char n] else decimal (n div 10) @ [digit_char n])"

declare decimal.simps [simp del]

text \<open>
  \<^verbatim>\<open>x.toFixed(2)\<close>, as ECMAScript defines it. A number that is not finite prints as
  its name. Otherwise the sign is split off; \<open>n\<close> is the integer for which \<open>n / 100\<close>
  is closest to the magnitude (the larger one of two that are equally close); its
  decimal digits are padded with zeros on the left to three digits at least, and the
  point goes before the last two. A magnitude of \<open>10\<^sup>2\<^sup>1\<close> or more is printed by the
  general number printer in exponent notation; its digits depend on the binary
  representation, so that printer is the parameter \<open>bigToString\<close>.
\<close>

definition toFixed2 :: "(rat \<Rightarrow> string) \<Rightarrow> jsnum \<Rightarrow> string" where
  "toFixed2 bigToString x =
     (case x of
        NaN \<Rightarrow> ''NaN''
      | PosInf \<Rightarrow> ''Infinity''
      | NegInf \<Rightarrow> ''-Infinity''
      | Fin q \<Rightarrow>
          (let s = (if q < 0 then ''-'' else '''');
               y = \<bar>q\<bar>
           in if 10 ^ 21 \<le> y then s @ bigToString y
              else
                (let n = nat \<lfloor>y * 100 + 1 / 2\<rfloor>;
                     m = decimal n;
                     m = replicate (3 - length m) (CHR ''0'') @ m;
                     k = length m
                 in s @ take (k - 2) m @ ''.'' @ drop (k - 2) m)))"

text \<open>What a JavaScript function of this file returns: a Number or a String.\<close>

datatype js_value = JNumber jsnum | JString string

section \<open>The data model\<close>

record origin_visit_data =
  monetizedTimeSpent :: jsnum
  numberOfVisits :: jsnum

record origin_data =
  origin :: string
  originVisitData :: origin_visit_data

text \<open>
  The sent-assets map is an object used as a dictionary; only the list of its own
  keys (\<^verbatim>\<open>Object.keys\<close>) is read, so it is the list of its entries in key order.
  \<open>None\<close> stands for a field or an argument that is \<^verbatim>\<open>null\<close> or \<^verbatim>\<open>undefined\<close>.
\<close>

type_synonym assets_map = "(string \<times> jsnum) list"

record origin_stats =
  totalTimeSpent :: jsnum
  totalMonetizedTimeSpent :: jsnum
  totalVisits :: jsnum
  totalSentAssetsMap :: "assets_map option"

section \<open>Array.prototype.sort\<close>

text \<open>
  The built-in sort reorders the array in place and consults the comparator through
  the sign of its result only, a \<^verbatim>\<open>NaN\<close> result counting as zero; it is stable.
  It is modelled as the stable insertion sort that goes through the array from the
  left and calls the comparator with the later element first: the element \<open>x\<close> moves
  in front of the elements \<open>y\<close> before it, from the nearest one on, as long as
  \<open>cmp x y\<close> is negative. \<open>js_insert\<close> works on the part already sorted, read from
  its end. With a comparator that is a consistent order every stable sort returns
  this array. With one that is not, the result is left to the implementation; on an
  array of two elements this is what an engine that calls the comparator with the
  later element first returns.
\<close>

fun js_insert :: "('a \<Rightarrow> 'a \<Rightarrow> jsnum) \<Rightarrow> 'a \<Rightarrow> 'a list \<Rightarrow> 'a list" where
  "js_insert cmp x [] = [x]"
| "js_insert cmp x (y # ys) =
     (if js_lt (cmp x y) (Fin 0) then y # js_insert cmp x ys else x # y # ys)"

definition js_sort :: "('a \<Rightarrow> 'a \<Rightarrow> jsnum) \<Rightarrow> 'a list \<Rightarrow> 'a list" where
  "js_sort cmp l = rev (foldl (\<lambda>sortedPart x. js_insert cmp x sortedPart) [] l)"

section \<open>Get top origins\<close>

text \<open>
  The result of a call that works on the array \<^verbatim>\<open>getOriginDataList()\<close> resolved to:
  the value returned, and the content of that array when the call returns (the
  sort works in place).
\<close>

record top_origins_result =
  returned :: "origin_data list option"
  suppliedAfter :: "origin_data list option"

definition byTimeSpentCompare :: "origin_data \<Rightarrow> origin_data \<Rightarrow> jsnum" where
  "byTimeSpentCompare a b =
     js_sub (monetizedTimeSpent (originVisitData b)) (monetizedTimeSpent (originVisitData a))"

text \<open>
  \<^verbatim>\<open>nTopOrigins\<close> is a number of entries. The first argument of the model is the
  count, the second what \<^verbatim>\<open>await getOriginDataList()\<close> gave. An array is truthy
  also when it is empty.
\<close>

definition getTopOriginsByTimeSpent ::
  "nat \<Rightarrow> origin_data list option \<Rightarrow> top_origins_result" where
  "getTopOriginsByTimeSpent nTopOrigins originDataList =
     (case originDataList of
        None \<Rightarrow> \<lparr>returned = None, suppliedAfter = None\<rparr>
      | Some l \<Rightarrow>
          if length l > 1 then
            (let sortedList = js_sort byTimeSpentCompare l;
                 listSize = min nTopOrigins (length sortedList)
             in \<lparr>returned = Some (take listSize sortedList), suppliedAfter = Some sortedList\<rparr>)
          else \<lparr>returned = Some l, suppliedAfter = Some l\<rparr>)"

definition NEEDS_LOVE_MAGIC_NUMBER_MARGIN :: jsnum where
  "NEEDS_LOVE_MAGIC_NUMBER_MARGIN = Fin (1 / 4)"

definition NEEDS_LOVE_MAGIC_NUMBER :: jsnum where
  "NEEDS_LOVE_MAGIC_NUMBER = Fin 1"

text \<open>
  The comparator of \<^verbatim>\<open>getTopOriginsThatNeedSomeLove\<close>. Its two divisions and its
  subtractions are the rounded ones. \<open>needsLoveRatio\<close> and \<open>ratioComparison\<close> are the
  constants \<^verbatim>\<open>needsLoveRatioA\<close> (or \<^verbatim>\<open>B\<close>) and \<^verbatim>\<open>ratioComparison\<close> of the source.
\<close>

definition needsLoveRatio :: "origin_data \<Rightarrow> jsnum" where
  "needsLoveRatio d =
     binary64 (js_div (monetizedTimeSpent (originVisitData d))
       (numberOfVisits (originVisitData d)))"

definition ratioComparison :: "origin_data \<Rightarrow> origin_data \<Rightarrow> jsnum" where
  "ratioComparison a b = binary64 (js_div (needsLoveRatio a) (needsLoveRatio b))"

definition needsLoveCompare :: "origin_data \<Rightarrow> origin_data \<Rightarrow> jsnum" where
  "needsLoveCompare a b =
     (let needsLoveRatioA = needsLoveRatio a;
          needsLoveRatioB = needsLoveRatio b
      in if js_ge (ratioComparison a b)
              (binary64 (js_sub NEEDS_LOVE_MAGIC_NUMBER NEEDS_LOVE_MAGIC_NUMBER_MARGIN))
            \<and> js_le (ratioComparison a b) NEEDS_LOVE_MAGIC_NUMBER
         then (if js_gt (numberOfVisits (originVisitData a)) (numberOfVisits (originVisitData b))
               then Fin 1 else Fin (- 1))
         else binary64 (js_sub needsLoveRatioA needsLoveRatioB))"

definition getTopOriginsThatNeedSomeLove ::
  "nat \<Rightarrow> origin_data list option \<Rightarrow> top_origins_result" where
  "getTopOriginsThatNeedSomeLove nTopOrigins originDataList =
     (case originDataList of
        None \<Rightarrow> \<lparr>returned = None, suppliedAfter = None\<rparr>
      | Some l \<Rightarrow>
          if length l > 1 then
            (let sortedList = js_sort needsLoveCompare l;
                 listSize = min nTopOrigins (length sortedList)
             in \<lparr>returned = Some (take listSize sortedList), suppliedAfter = Some sortedList\<rparr>)
          else \<lparr>returned = Some l, suppliedAfter = Some l\<rparr>)"

text \<open>
  \<^verbatim>\<open>x && y && z\<close> evaluates to the first operand that is falsy, so the function
  returns \<^verbatim>\<open>null\<close> or \<^verbatim>\<open>undefined\<close> itself (\<open>None\<close>) when the stats or the map are
  missing, and the Boolean of the last comparison otherwise.
\<close>

definition hasUsedWebMonetizationProvider :: "origin_stats option \<Rightarrow> bool option" where
  "hasUsedWebMonetizationProvider originStats =
     (case originStats of
        None \<Rightarrow> None
      | Some s \<Rightarrow>
          (case totalSentAssetsMap s of
             None \<Rightarrow> None
           | Some m \<Rightarrow> Some (length (map fst m) \<noteq> 0)))"

section \<open>Payment prediction\<close>


definition unNaN :: "jsnum \<Rightarrow> jsnum" where
  "unNaN number = (if isNaN number then Fin 0 else number)"



section \<open>Percentages\<close>

definition toPercent :: "(rat \<Rightarrow> string) \<Rightarrow> jsnum \<Rightarrow> string" where
  "toPercent bigToString number = toFixed2 bigToString (unNaN (js_mul (Fin 100) number))"

definition getPercentTimeSpentAtOriginOutOfTotal ::
  "(rat \<Rightarrow> string) \<Rightarrow> origin_data option \<Rightarrow> origin_stats option \<Rightarrow> js_value" where
  "getPercentTimeSpentAtOriginOutOfTotal bigToString originData originStats =
     (case (originData, originStats) of
        (Some d, Some s) \<Rightarrow>
          JString (toPercent bigToString
            (js_div (monetizedTimeSpent (originVisitData d)) (totalTimeSpent s)))
      | _ \<Rightarrow> JNumber (Fin 0))"

definition getPercentVisitsToOriginOutOfTotal ::
  "(rat \<Rightarrow> string) \<Rightarrow> origin_data option \<Rightarrow> origin_stats option \<Rightarrow> js_value" where
  "getPercentVisitsToOriginOutOfTotal bigToString originData originStats =
     (case (originData, originStats) of
        (Some d, Some s) \<Rightarrow>
          if totalVisits s = Fin 0 then JNumber (Fin 0)
          else JString (toPercent bigToString
                 (js_div (numberOfVisits (originVisitData d)) (totalVisits s)))
      | _ \<Rightarrow> JNumber (Fin 0))"

definition getMonetizedTimeSpentPercent ::
  "(rat \<Rightarrow> string) \<Rightarrow> origin_stats option \<Rightarrow> js_value" where
  "getMonetizedTimeSpentPercent bigToString originStats =
     (case originStats of
        None \<Rightarrow> JNumber (Fin 0)
      | Some s \<Rightarrow>
          if totalTimeSpent s = Fin 0 then JNumber (Fin 0)
          else JString (toPercent bigToString
                 (js_div (totalMonetizedTimeSpent s) (totalTimeSpent s))))"

section \<open>Notions of the specification\<close>

text \<open>
  A valid record, by the data model: the monetized time is a duration that is not
  negative, the number of visits an integer that is not negative.
\<close>

definition valid_origin_data :: "origin_data \<Rightarrow> bool" where
  "valid_origin_data d =
     ((case monetizedTimeSpent (originVisitData d) of Fin t \<Rightarrow> 0 \<le> t | _ \<Rightarrow> False) \<and>
      (case numberOfVisits (originVisitData d) of
         Fin v \<Rightarrow> 0 \<le> v \<and> of_int \<lfloor>v\<rfloor> = v | _ \<Rightarrow> False))"

text \<open>A list in descending order of \<^verbatim>\<open>originVisitData.monetizedTimeSpent\<close>.\<close>

definition sortedDescendingByTime :: "origin_data list \<Rightarrow> bool" where
  "sortedDescendingByTime l =
     sorted_wrt (\<lambda>a b. js_ge (monetizedTimeSpent (originVisitData a))
                          (monetizedTimeSpent (originVisitData b))) l"

text \<open>The origins of the specification's examples.\<close>

definition exampleA :: origin_data where
  "exampleA = \<lparr>origin = ''A'',
     originVisitData = \<lparr>monetizedTimeSpent = Fin 100, numberOfVisits = Fin 10\<rparr>\<rparr>"

definition exampleB95 :: origin_data where
  "exampleB95 = \<lparr>origin = ''B'',
     originVisitData = \<lparr>monetizedTimeSpent = Fin 95, numberOfVisits = Fin 8\<rparr>\<rparr>"

definition exampleB90 :: origin_data where
  "exampleB90 = \<lparr>origin = ''B'',
     originVisitData = \<lparr>monetizedTimeSpent = Fin 90, numberOfVisits = Fin 5\<rparr>\<rparr>"

definition exampleTwin :: "string \<Rightarrow> origin_data" where
  "exampleTwin name = \<lparr>origin = name,
     originVisitData = \<lparr>monetizedTimeSpent = Fin 10, numberOfVisits = Fin 2\<rparr>\<rparr>"

text \<open>A number lies in the closed interval \<open>[lo, hi]\<close>: it is finite and between the bounds.\<close>

definition within_closed_interval :: "rat \<Rightarrow> rat \<Rightarrow> jsnum \<Rightarrow> bool" where
  "within_closed_interval lo hi x = (case x of Fin q \<Rightarrow> lo \<le> q \<and> q \<le> hi | _ \<Rightarrow> False)"



definition exampleStatsZero :: origin_stats where
  "exampleStatsZero = \<lparr>totalTimeSpent = Fin 0, totalMonetizedTimeSpent = Fin 0,
     totalVisits = Fin 0, totalSentAssetsMap = None\<rparr>"



text \<open>
  Two records whose exact quotient of need ratios is \<open>0.75\<close>, the lower bound of the
  window: \<open>6 / 20 = 0.3\<close> and \<open>4 / 10 = 0.4\<close>.
\<close>

definition exampleBoundA :: origin_data where
  "exampleBoundA = \<lparr>origin = ''P'',
     originVisitData = \<lparr>monetizedTimeSpent = Fin 6, numberOfVisits = Fin 20\<rparr>\<rparr>"

definition exampleBoundB :: origin_data where
  "exampleBoundB = \<lparr>origin = ''Q'',
     originVisitData = \<lparr>monetizedTimeSpent = Fin 4, numberOfVisits = Fin 10\<rparr>\<rparr>"

text \<open>A list in ascending order of the need ratio.\<close>

definition sortedAscendingByNeedRatio :: "origin_data list \<Rightarrow> bool" where
  "sortedAscendingByNeedRatio l =
     sorted_wrt (\<lambda>a b. js_le (needsLoveRatio a) (needsLoveRatio b)) l"

text \<open>
  Two records are apart when the quotient of their need ratios, as the comparator
  computes it, is outside the window \<open>[0.75, 1]\<close> whichever of the two comes first. In
  a list of records that are apart, every two records at different places are.
\<close>

definition apart :: "origin_data \<Rightarrow> origin_data \<Rightarrow> bool" where
  "apart a b =
     (\<not> within_closed_interval (3 / 4) 1 (ratioComparison a b) \<and>
      \<not> within_closed_interval (3 / 4) 1 (ratioComparison b a))"

fun pairwiseApart :: "origin_data list \<Rightarrow> bool" where
  "pairwiseApart [] = True"
| "pairwiseApart (x # xs) = (list_all (apart x) xs \<and> pairwiseApart xs)"

section \<open>Properties of the rounding\<close>

lemma two_powi_less_cancel: "(2::rat) powi m < 2 powi n \<Longrightarrow> m < n"
proof (rule ccontr)
  assume lt: "(2::rat) powi m < 2 powi n" and "\<not> m < n"
  then have "n \<le> m" by simp
  then have "(2::rat) powi n \<le> 2 powi m"
    by (intro power_int_increasing) auto
  with lt show False by simp
qed

lemma log2_floor_bounds:
  assumes "0 < a"
  shows "2 powi (log2_floor a) \<le> a \<and> a < 2 powi (log2_floor a + 1)"
proof (cases "1 \<le> a")
  case True
  define k where "k = \<lfloor>a\<rfloor>"
  have k1: "1 \<le> k" using True by (simp add: k_def le_floor_iff)
  then have kpos: "0 < k" by simp
  have b1: "1 \<le> bitlen k" using kpos by (simp add: bitlen_alt_def)
  have lo: "2 ^ nat (bitlen k - 1) \<le> k" and hi: "k < 2 ^ nat (bitlen k)"
    using bitlen_bounds [OF kpos] by auto
  have L: "log2_floor a = bitlen k - 1"
    using True by (simp add: log2_floor_def k_def)
  have "(2::rat) powi (bitlen k - 1) = of_int (2 ^ nat (bitlen k - 1))"
    using b1 by (simp add: power_int_def)
  also have "\<dots> \<le> of_int k" using lo by (simp only: of_int_le_iff)
  also have "\<dots> \<le> a" by (simp add: k_def)
  finally have lower: "2 powi (bitlen k - 1) \<le> a" .
  have "k + 1 \<le> 2 ^ nat (bitlen k)" using hi by simp
  then have "(of_int (k + 1) :: rat) \<le> of_int (2 ^ nat (bitlen k))"
    by (simp only: of_int_le_iff)
  moreover have "a < of_int (k + 1)" using floor_correct [of a] by (simp add: k_def)
  moreover have "(2::rat) powi (bitlen k - 1 + 1) = of_int (2 ^ nat (bitlen k))"
    using b1 by (simp add: power_int_def)
  ultimately have upper: "a < 2 powi (bitlen k - 1 + 1)" by simp
  show ?thesis using lower upper L by simp
next
  case False
  then have a1: "a < 1" by simp
  define k where "k = \<lfloor>1 / a\<rfloor>"
  have "1 \<le> 1 / a" using assms a1 by (simp add: field_simps)
  then have k1: "1 \<le> k" by (simp add: k_def le_floor_iff)
  then have kpos: "0 < k" by simp
  have b1: "1 \<le> bitlen k" using kpos by (simp add: bitlen_alt_def)
  have lo: "2 ^ nat (bitlen k - 1) \<le> k" and hi: "k < 2 ^ nat (bitlen k)"
    using bitlen_bounds [OF kpos] by auto
  define d where "d = 1 - bitlen k"
  have L: "log2_floor a = (if 2 powi d \<le> a then d else d - 1)"
    using False by (simp add: log2_floor_def k_def d_def Let_def)
  have "(of_int (2 ^ nat (bitlen k - 1)) :: rat) \<le> of_int k"
    using lo by (simp only: of_int_le_iff)
  also have "\<dots> \<le> 1 / a" by (simp add: k_def)
  finally have "(2::rat) ^ nat (bitlen k - 1) \<le> 1 / a" by simp
  then have "a * 2 ^ nat (bitlen k - 1) \<le> 1"
    using assms by (simp add: field_simps)
  then have "a \<le> 1 / 2 ^ nat (bitlen k - 1)"
    by (simp add: field_simps)
  moreover have "(2::rat) powi d = 1 / 2 ^ nat (bitlen k - 1)"
    using b1 by (simp add: d_def power_int_def field_simps power_inverse)
  ultimately have ub: "a \<le> 2 powi d" by simp
  have "k + 1 \<le> 2 ^ nat (bitlen k)" using hi by simp
  then have "(of_int (k + 1) :: rat) \<le> of_int (2 ^ nat (bitlen k))"
    by (simp only: of_int_le_iff)
  moreover have "1 / a < of_int (k + 1)" using floor_correct [of "1 / a"] by (simp add: k_def)
  ultimately have "1 / a < 2 ^ nat (bitlen k)" by simp
  then have "1 < a * 2 ^ nat (bitlen k)"
    using assms by (simp add: field_simps)
  then have "1 / 2 ^ nat (bitlen k) < a"
    by (simp add: field_simps)
  moreover have "(2::rat) powi (d - 1) = 1 / 2 ^ nat (bitlen k)"
    using b1 by (simp add: d_def power_int_def field_simps power_inverse)
  ultimately have lb: "2 powi (d - 1) < a" by simp
  show ?thesis
  proof (cases "2 powi d \<le> a")
    case True
    have "(2::rat) powi d < 2 powi (d + 1)"
      by (intro power_int_strict_increasing) auto
    with True ub L show ?thesis by simp
  next
    case False
    with lb ub L show ?thesis by simp
  qed
qed

lemma log2_floor_unique:
  assumes "0 < a" "2 powi e \<le> a" "a < 2 powi (e + 1)"
  shows "log2_floor a = e"
proof -
  from log2_floor_bounds [OF assms(1)]
  have lo: "2 powi (log2_floor a) \<le> a" and hi: "a < 2 powi (log2_floor a + 1)" by auto
  have "(2::rat) powi e < 2 powi (log2_floor a + 1)" using assms(2) hi by simp
  then have "e < log2_floor a + 1" by (rule two_powi_less_cancel)
  moreover have "(2::rat) powi (log2_floor a) < 2 powi (e + 1)" using lo assms(3) by simp
  then have "log2_floor a < e + 1" by (rule two_powi_less_cancel)
  ultimately show ?thesis by simp
qed

lemma round_half_even_unique:
  assumes "\<bar>m - of_int n\<bar> < 1 / 2"
  shows "round_half_even m = n"
proof -
  have lo: "of_int n - 1 / 2 < m" and hi: "m < of_int n + 1 / 2"
    using assms by linarith+
  have "\<lfloor>m\<rfloor> = n \<or> \<lfloor>m\<rfloor> = n - 1"
  proof -
    have "\<lfloor>m\<rfloor> \<le> n" using hi by (simp add: floor_le_iff)
    moreover have "n - 1 \<le> \<lfloor>m\<rfloor>" using lo by (simp add: le_floor_iff)
    ultimately show ?thesis by auto
  qed
  then show ?thesis
  proof
    assume f: "\<lfloor>m\<rfloor> = n"
    then have "m - of_int \<lfloor>m\<rfloor> < 1 / 2" using hi by simp
    then show ?thesis using f by (simp add: round_half_even_def Let_def)
  next
    assume f: "\<lfloor>m\<rfloor> = n - 1"
    then have "1 / 2 < m - of_int \<lfloor>m\<rfloor>" using lo by simp
    then show ?thesis using f by (simp add: round_half_even_def Let_def)
  qed
qed

lemma round_half_even_ge_floor: "\<lfloor>m\<rfloor> \<le> round_half_even m"
  by (simp add: round_half_even_def Let_def)

lemma round_half_even_pos: "1 \<le> m \<Longrightarrow> 1 \<le> round_half_even m"
proof -
  assume "1 \<le> m"
  then have "1 \<le> \<lfloor>m\<rfloor>" by (simp add: le_floor_iff)
  then show ?thesis using round_half_even_ge_floor [of m] by (rule order_trans)
qed

lemma binary64_rat_unfold:
  assumes "q \<noteq> 0" and "u = max (log2_floor \<bar>q\<bar>) (- 1022) - 52"
    and "n = round_half_even (\<bar>q\<bar> / 2 powi u)"
  shows "binary64_rat q =
     (if binary64_overflow \<le> of_int n * 2 powi u then js_inf (0 < q)
      else Fin (if q < 0 then - (of_int n * 2 powi u) else of_int n * 2 powi u))"
  unfolding binary64_rat_def Let_def assms(2,3) using assms(1) by (simp only: if_False)

text \<open>Evaluation of the rounding at a number whose exponent and significand are given.\<close>

lemma binary64_rat_normal:
  assumes "q \<noteq> 0" and "2 powi e \<le> \<bar>q\<bar>" and "\<bar>q\<bar> < 2 powi (e + 1)" and "- 1022 \<le> e"
    and "\<bar>\<bar>q\<bar> / 2 powi (e - 52) - of_int n\<bar> < 1 / 2"
    and "of_int n * 2 powi (e - 52) < binary64_overflow"
  shows "binary64_rat q = Fin (if q < 0 then - (of_int n * 2 powi (e - 52)) else of_int n * 2 powi (e - 52))"
proof -
  have pos: "0 < \<bar>q\<bar>" using assms(1) by simp
  have L: "log2_floor \<bar>q\<bar> = e"
    using pos assms(2,3) by (rule log2_floor_unique)
  have u: "e - 52 = max (log2_floor \<bar>q\<bar>) (- 1022) - 52"
    using L assms(4) by simp
  have n: "n = round_half_even (\<bar>q\<bar> / 2 powi (e - 52))"
    using assms(5) by (rule round_half_even_unique [symmetric])
  have "\<not> binary64_overflow \<le> of_int n * 2 powi (e - 52)"
    using assms(6) by simp
  then show ?thesis
    by (simp only: binary64_rat_unfold [OF assms(1) u n] if_False)
qed

text \<open>Every finite result of the rounding is a multiple of \<open>2\<^sup>-\<^sup>1\<^sup>0\<^sup>7\<^sup>4\<close>.\<close>

lemma binary64_rat_grid:
  assumes "binary64_rat q = Fin r"
  shows "\<exists>k::int. r = of_int k * 2 powi (- 1074)"
proof (cases "q = 0")
  case True
  with assms have "r = 0" by (simp add: binary64_rat_def)
  then have "r = of_int 0 * 2 powi (- 1074)" by (simp only: of_int_0 mult_zero_left)
  then show ?thesis by blast
next
  case False
  define u where "u = max (log2_floor \<bar>q\<bar>) (- 1022) - 52"
  define n where "n = round_half_even (\<bar>q\<bar> / 2 powi u)"
  define g where "g = (2::rat) powi (- 1074)"
  have u_ge: "0 \<le> u + 1074" by (simp add: u_def)
  have r: "r = (if q < 0 then - (of_int n * 2 powi u) else of_int n * 2 powi u)"
    using assms unfolding binary64_rat_unfold [OF False u_def n_def]
    by (simp add: js_inf_def split: if_splits)
  have "(2::rat) powi u = 2 powi ((u + 1074) + (- 1074))"
    by (simp only: add.assoc) simp
  also have "\<dots> = 2 powi (u + 1074) * g"
    unfolding g_def by (rule power_int_add) simp
  also have "(2::rat) powi (u + 1074) = of_int (2 ^ nat (u + 1074))"
    using u_ge by (simp add: power_int_def)
  finally have pu: "(2::rat) powi u = of_int (2 ^ nat (u + 1074)) * g" .
  show ?thesis
  proof (cases "q < 0")
    case True
    then have "r = of_int (- (n * 2 ^ nat (u + 1074))) * g"
      using r pu by simp
    then show ?thesis unfolding g_def by blast
  next
    case False
    then have "r = of_int (n * 2 ^ nat (u + 1074)) * g"
      using r pu by simp
    then show ?thesis unfolding g_def by blast
  qed
qed

text \<open>A number of magnitude \<open>2\<^sup>-\<^sup>1\<^sup>0\<^sup>7\<^sup>4\<close> at least keeps its sign when it is rounded.\<close>

lemma binary64_rat_sign:
  assumes "2 powi (- 1074) \<le> \<bar>q\<bar>"
  shows "js_lt (binary64_rat q) (Fin 0) = (q < 0)"
    and "js_lt (Fin 0) (binary64_rat q) = (0 < q)"
proof -
  define g where "g = (2::rat) powi (- 1074)"
  have gpos: "0 < g" unfolding g_def by (rule zero_less_power_int) simp
  have gq: "g \<le> \<bar>q\<bar>" using assms by (simp only: g_def)
  with gpos have pos: "0 < \<bar>q\<bar>" by linarith
  then have q0: "q \<noteq> 0" by simp
  define u where "u = max (log2_floor \<bar>q\<bar>) (- 1022) - 52"
  define n where "n = round_half_even (\<bar>q\<bar> / 2 powi u)"
  have "2 powi u \<le> \<bar>q\<bar>"
  proof (cases "log2_floor \<bar>q\<bar> \<le> - 1022")
    case True
    then have "u = - 1074" by (simp add: u_def)
    with gq show ?thesis by (simp only: g_def)
  next
    case False
    then have "u \<le> log2_floor \<bar>q\<bar>" by (simp add: u_def)
    then have "(2::rat) powi u \<le> 2 powi (log2_floor \<bar>q\<bar>)"
      by (intro power_int_increasing) auto
    also have "\<dots> \<le> \<bar>q\<bar>" using log2_floor_bounds [OF pos] by simp
    finally show ?thesis .
  qed
  moreover have "(0::rat) < 2 powi u" by (rule zero_less_power_int) simp
  ultimately have "1 \<le> \<bar>q\<bar> / 2 powi u" by (simp add: field_simps)
  then have "1 \<le> n" unfolding n_def by (rule round_half_even_pos)
  then have "(0::rat) < of_int n" by simp
  then have rpos: "(0::rat) < of_int n * 2 powi u" by simp
  note b = binary64_rat_unfold [OF q0 u_def n_def]
  show "js_lt (binary64_rat q) (Fin 0) = (q < 0)"
    using rpos q0 unfolding b by (auto simp: js_inf_def)
  show "js_lt (Fin 0) (binary64_rat q) = (0 < q)"
    using rpos q0 unfolding b by (auto simp: js_inf_def)
qed

lemma grid_difference:
  fixes g :: rat
  assumes "0 < g" "x = of_int k * g" "y = of_int l * g" "x \<noteq> y"
  shows "g \<le> \<bar>x - y\<bar>"
proof -
  have "k \<noteq> l" using assms by auto
  then have "1 \<le> \<bar>k - l\<bar>" by simp
  then have "(1::rat) \<le> of_int \<bar>k - l\<bar>" by (simp only: of_int_1_le_iff)
  then have "(1::rat) * g \<le> of_int \<bar>k - l\<bar> * g"
    using assms(1) by (intro mult_right_mono) auto
  moreover have "\<bar>x - y\<bar> = of_int \<bar>k - l\<bar> * g"
    using assms(1) unfolding assms(2,3) by (simp add: abs_mult flip: left_diff_distrib)
  ultimately show ?thesis by simp
qed

lemma binary64_grid:
  assumes "binary64 x = Fin r"
  shows "\<exists>k::int. r = of_int k * 2 powi (- 1074)"
  using assms binary64_rat_grid by (cases x) auto

text \<open>
  The rounded difference of two numbers of the format has the sign of their exact
  difference: it is negative exactly when the first is the smaller one.
\<close>

lemma binary64_sub_negative_iff:
  "js_lt (binary64 (js_sub (binary64 x) (binary64 y))) (Fin 0) = js_lt (binary64 x) (binary64 y)"
proof (cases "\<exists>r s. binary64 x = Fin r \<and> binary64 y = Fin s")
  case True
  then obtain r s where r: "binary64 x = Fin r" and s: "binary64 y = Fin s" by blast
  define g where "g = (2::rat) powi (- 1074)"
  have gpos: "0 < g" unfolding g_def by (rule zero_less_power_int) simp
  obtain k :: int where k: "r = of_int k * g"
    using binary64_grid [OF r] unfolding g_def by blast
  obtain l :: int where l: "s = of_int l * g"
    using binary64_grid [OF s] unfolding g_def by blast
  show ?thesis
  proof (cases "r = s")
    case True
    then show ?thesis by (simp add: r s binary64_rat_def)
  next
    case False
    then have "g \<le> \<bar>r - s\<bar>" using gpos k l by (intro grid_difference)
    then have "js_lt (binary64_rat (r - s)) (Fin 0) = (r - s < 0)"
      unfolding g_def by (rule binary64_rat_sign)
    then show ?thesis by (simp add: r s)
  qed
next
  case False
  then show ?thesis
    by (cases "binary64 x"; cases "binary64 y") auto
qed

lemma binary64_sub_positive_iff:
  "js_gt (binary64 (js_sub (binary64 x) (binary64 y))) (Fin 0) = js_gt (binary64 x) (binary64 y)"
proof (cases "\<exists>r s. binary64 x = Fin r \<and> binary64 y = Fin s")
  case True
  then obtain r s where r: "binary64 x = Fin r" and s: "binary64 y = Fin s" by blast
  define g where "g = (2::rat) powi (- 1074)"
  have gpos: "0 < g" unfolding g_def by (rule zero_less_power_int) simp
  obtain k :: int where k: "r = of_int k * g"
    using binary64_grid [OF r] unfolding g_def by blast
  obtain l :: int where l: "s = of_int l * g"
    using binary64_grid [OF s] unfolding g_def by blast
  show ?thesis
  proof (cases "r = s")
    case True
    then show ?thesis by (simp add: r s binary64_rat_def js_gt_def)
  next
    case False
    then have "g \<le> \<bar>r - s\<bar>" using gpos k l by (intro grid_difference)
    then have "js_lt (Fin 0) (binary64_rat (r - s)) = (0 < r - s)"
      unfolding g_def by (rule binary64_rat_sign)
    then show ?thesis by (simp add: r s js_gt_def)
  qed
next
  case False
  then show ?thesis
    by (cases "binary64 x"; cases "binary64 y") (auto simp: js_gt_def)
qed

lemma below_overflow: "x \<le> (2::rat) ^ 64 \<Longrightarrow> x < binary64_overflow"
proof -
  assume "x \<le> (2::rat) ^ 64"
  moreover have "(2::rat) ^ 64 < 2 ^ 1024"
    by (rule power_strict_increasing) simp_all
  ultimately show ?thesis unfolding binary64_overflow_def by (rule le_less_trans)
qed

lemma binary64_eval:
  assumes "0 < q" and "2 powi e \<le> q" and "q < 2 powi (e + 1)" and "- 1022 \<le> e"
    and "\<bar>q / 2 powi (e - 52) - of_int n\<bar> < 1 / 2"
    and "of_int n * 2 powi (e - 52) \<le> (2::rat) ^ 64"
  shows "binary64_rat q = Fin (of_int n * 2 powi (e - 52))"
proof -
  have q: "\<bar>q\<bar> = q" "q \<noteq> 0" "\<not> q < 0" using assms(1) by simp_all
  have "binary64_rat q =
      Fin (if q < 0 then - (of_int n * 2 powi (e - 52)) else of_int n * 2 powi (e - 52))"
    by (rule binary64_rat_normal)
      (simp_all only: q assms(2-5) below_overflow [OF assms(6)] not_False_eq_True)
  then show ?thesis using q(3) by simp
qed

lemma binary64_exact:
  assumes "0 < q" and "2 powi e \<le> q" and "q < 2 powi (e + 1)" and "- 1022 \<le> e"
    and "q / 2 powi (e - 52) = of_int n" and "q \<le> (2::rat) ^ 64"
  shows "binary64_rat q = Fin q"
proof -
  have p: "(0::rat) < 2 powi (e - 52)" by (rule zero_less_power_int) simp
  then have q: "of_int n * 2 powi (e - 52) = q"
    using assms(5) by (simp add: field_simps)
  have "binary64_rat q = Fin (of_int n * 2 powi (e - 52))"
  proof (rule binary64_eval [OF assms(1-4)])
    show "\<bar>q / 2 powi (e - 52) - of_int n\<bar> < 1 / 2"
      by (simp add: assms(5))
    show "of_int n * 2 powi (e - 52) \<le> (2::rat) ^ 64"
      unfolding q by (rule assms(6))
  qed
  then show ?thesis by (simp only: q)
qed

lemma binary64_1: "binary64_rat 1 = Fin 1"
  using binary64_exact [of 1 0 4503599627370496] by simp

lemma binary64_5: "binary64_rat 5 = Fin 5"
  using binary64_exact [of 5 2 5629499534213120] by simp

lemma binary64_10: "binary64_rat 10 = Fin 10"
  using binary64_exact [of 10 3 5629499534213120] by simp

lemma binary64_18: "binary64_rat 18 = Fin 18"
  using binary64_exact [of 18 4 5066549580791808] by simp

lemma binary64_95_8: "binary64_rat (95 / 8) = Fin (95 / 8)"
  using binary64_exact [of "95 / 8" 3 6685030696878080] by simp

lemma binary64_19_16: "binary64_rat (19 / 16) = Fin (19 / 16)"
  using binary64_exact [of "19 / 16" 0 5348024557502464] by simp

lemma binary64_3_4: "binary64_rat (3 / 4) = Fin (3 / 4)"
  using binary64_exact [of "3 / 4" "- 1" 6755399441055744] by simp

lemma binary64_16_19:
  "binary64_rat (16 / 19) = Fin (948126237341157 / 1125899906842624)"
  using binary64_eval [of "16 / 19" "- 1" 7585009898729256] by simp

lemma binary64_5_9:
  "binary64_rat (5 / 9) = Fin (2501999792983609 / 4503599627370496)"
  using binary64_eval [of "5 / 9" "- 1" 5003999585967218] by simp

lemma binary64_9_5:
  "binary64_rat (9 / 5) = Fin (8106479329266893 / 4503599627370496)"
  using binary64_eval [of "9 / 5" 0 8106479329266893] by simp

lemma binary64_3_10:
  "binary64_rat (3 / 10) = Fin (5404319552844595 / 18014398509481984)"
  using binary64_eval [of "3 / 10" "- 2" 5404319552844595] by simp

lemma binary64_2_5:
  "binary64_rat (2 / 5) = Fin (3602879701896397 / 9007199254740992)"
  using binary64_eval [of "2 / 5" "- 2" 7205759403792794] by simp

lemma binary64_bound_quotient:
  "binary64_rat (5404319552844595 / 7205759403792794)
     = Fin (6755399441055743 / 9007199254740992)"
  using binary64_eval [of "5404319552844595 / 7205759403792794" "- 1" 6755399441055743]
  by simp

section \<open>Properties of the sort\<close>

lemma length_js_insert: "length (js_insert cmp x ys) = Suc (length ys)"
  by (induction ys) auto

lemma mset_js_insert: "mset (js_insert cmp x ys) = add_mset x (mset ys)"
  by (induction ys) auto

lemma set_js_insert: "set (js_insert cmp x ys) = insert x (set ys)"
  by (induction ys) auto

lemma mset_foldl_js_insert:
  "mset (foldl (\<lambda>sortedPart x. js_insert cmp x sortedPart) acc l) = mset acc + mset l"
  by (induction l arbitrary: acc) (auto simp: mset_js_insert)

lemma mset_js_sort: "mset (js_sort cmp l) = mset l"
  by (simp add: js_sort_def mset_foldl_js_insert)

lemma length_js_sort: "length (js_sort cmp l) = length l"
  using mset_js_sort [of cmp l] by (metis size_mset)

lemma set_js_sort: "set (js_sort cmp l) = set l"
  using mset_js_sort [of cmp l] by (metis set_mset_mset)

text \<open>On two elements the sort calls the comparator once, with the later element first.\<close>

lemma js_sort_two:
  "js_sort cmp [x, y] = (if js_lt (cmp y x) (Fin 0) then [y, x] else [x, y])"
  by (simp add: js_sort_def)

section \<open>Properties of the need-love comparator\<close>

lemma closeness_test_iff:
  "(js_ge r (binary64 (js_sub NEEDS_LOVE_MAGIC_NUMBER NEEDS_LOVE_MAGIC_NUMBER_MARGIN))
      \<and> js_le r NEEDS_LOVE_MAGIC_NUMBER) = within_closed_interval (3 / 4) 1 r"
  by (cases r)
    (auto simp: NEEDS_LOVE_MAGIC_NUMBER_def NEEDS_LOVE_MAGIC_NUMBER_MARGIN_def
       js_ge_def js_le_def within_closed_interval_def binary64_3_4)

lemma needsLoveCompare_cases:
  "needsLoveCompare a b =
     (if within_closed_interval (3 / 4) 1 (ratioComparison a b)
      then (if js_gt (numberOfVisits (originVisitData a)) (numberOfVisits (originVisitData b))
            then Fin 1 else Fin (- 1))
      else binary64 (js_sub (needsLoveRatio a) (needsLoveRatio b)))"
  unfolding needsLoveCompare_def Let_def closeness_test_iff ..

lemma needsLoveCompare_difference_negative_iff:
  "js_lt (binary64 (js_sub (needsLoveRatio a) (needsLoveRatio b))) (Fin 0)
     = js_lt (needsLoveRatio a) (needsLoveRatio b)"
  unfolding needsLoveRatio_def by (rule binary64_sub_negative_iff)

lemma needsLoveCompare_difference_positive_iff:
  "js_gt (binary64 (js_sub (needsLoveRatio a) (needsLoveRatio b))) (Fin 0)
     = js_gt (needsLoveRatio a) (needsLoveRatio b)"
  unfolding needsLoveRatio_def by (rule binary64_sub_positive_iff)

lemma exampleA_ratio: "needsLoveRatio exampleA = Fin 10"
  by (simp add: needsLoveRatio_def exampleA_def binary64_10)

lemma exampleB95_ratio: "needsLoveRatio exampleB95 = Fin (95 / 8)"
  by (simp add: needsLoveRatio_def exampleB95_def binary64_95_8)

lemma exampleB90_ratio: "needsLoveRatio exampleB90 = Fin 18"
  by (simp add: needsLoveRatio_def exampleB90_def binary64_18)

lemma exampleTwin_ratio: "needsLoveRatio (exampleTwin name) = Fin 5"
  by (simp add: needsLoveRatio_def exampleTwin_def binary64_5)

lemma exampleTwin_visits: "numberOfVisits (originVisitData (exampleTwin name)) = Fin 2"
  by (simp add: exampleTwin_def)

lemma exampleBound_ratios:
  "needsLoveRatio exampleBoundA = Fin (5404319552844595 / 18014398509481984)"
  "needsLoveRatio exampleBoundB = Fin (3602879701896397 / 9007199254740992)"
  by (simp_all add: needsLoveRatio_def exampleBoundA_def exampleBoundB_def
      binary64_3_10 binary64_2_5)

lemma example_comparisons:
  "ratioComparison exampleA exampleB95 = Fin (948126237341157 / 1125899906842624)"
  "ratioComparison exampleB95 exampleA = Fin (19 / 16)"
  "ratioComparison exampleA exampleB90 = Fin (2501999792983609 / 4503599627370496)"
  "ratioComparison exampleB90 exampleA = Fin (8106479329266893 / 4503599627370496)"
  "ratioComparison (exampleTwin name) (exampleTwin name') = Fin 1"
  "ratioComparison exampleBoundA exampleBoundB = Fin (6755399441055743 / 9007199254740992)"
  by (simp_all add: ratioComparison_def exampleA_ratio exampleB95_ratio exampleB90_ratio
      exampleTwin_ratio exampleBound_ratios binary64_16_19 binary64_19_16 binary64_5_9
      binary64_9_5 binary64_1 binary64_bound_quotient)

lemma example_windows:
  "within_closed_interval (3 / 4) 1 (ratioComparison exampleA exampleB95)"
  "\<not> within_closed_interval (3 / 4) 1 (ratioComparison exampleB95 exampleA)"
  "\<not> within_closed_interval (3 / 4) 1 (ratioComparison exampleA exampleB90)"
  "\<not> within_closed_interval (3 / 4) 1 (ratioComparison exampleB90 exampleA)"
  "within_closed_interval (3 / 4) 1 (ratioComparison (exampleTwin name) (exampleTwin name'))"
  "\<not> within_closed_interval (3 / 4) 1 (ratioComparison exampleBoundA exampleBoundB)"
  by (simp_all add: example_comparisons within_closed_interval_def)

lemma example_visits:
  "js_gt (numberOfVisits (originVisitData exampleA)) (numberOfVisits (originVisitData exampleB95))"
  "\<not> js_gt (numberOfVisits (originVisitData exampleB95)) (numberOfVisits (originVisitData exampleA))"
  "js_gt (numberOfVisits (originVisitData exampleBoundA))
     (numberOfVisits (originVisitData exampleBoundB))"
  by (simp_all add: exampleA_def exampleB95_def exampleBoundA_def exampleBoundB_def js_gt_def)

lemma needsLoveCompare_outside:
  assumes "\<not> within_closed_interval (3 / 4) 1 (ratioComparison a b)"
  shows "needsLoveCompare a b = binary64 (js_sub (needsLoveRatio a) (needsLoveRatio b))"
    and "js_lt (needsLoveCompare a b) (Fin 0) = js_lt (needsLoveRatio a) (needsLoveRatio b)"
    and "js_gt (needsLoveCompare a b) (Fin 0) = js_gt (needsLoveRatio a) (needsLoveRatio b)"
  using assms
  by (simp_all add: needsLoveCompare_cases needsLoveCompare_difference_negative_iff
      needsLoveCompare_difference_positive_iff)

text \<open>
  The window is a window of the quotient as it is computed. At the records with
  \<open>6 / 20\<close> and \<open>4 / 10\<close> the exact quotient of the need ratios is \<open>0.75\<close> and the first
  has more visits, but the computed quotient is \<open>0.7499999999999999\<close>, outside the
  window, and the comparator returns the difference, a negative number.
\<close>

lemma needsLoveCompare_at_bound:
  "js_div (Fin (6 / 20)) (Fin (4 / 10)) = Fin (3 / 4)"
  "ratioComparison exampleBoundA exampleBoundB = Fin (6755399441055743 / 9007199254740992)"
  "js_lt (needsLoveCompare exampleBoundA exampleBoundB) (Fin 0)"
proof -
  show "js_div (Fin (6 / 20)) (Fin (4 / 10)) = Fin (3 / 4)"
    by simp
  show "ratioComparison exampleBoundA exampleBoundB
      = Fin (6755399441055743 / 9007199254740992)"
    by (rule example_comparisons)
  show "js_lt (needsLoveCompare exampleBoundA exampleBoundB) (Fin 0)"
    unfolding needsLoveCompare_outside(2) [OF example_windows(6)]
    by (simp add: exampleBound_ratios)
qed

lemma example_compares:
  "needsLoveCompare exampleA exampleB95 = Fin 1"
  "js_gt (needsLoveCompare exampleB95 exampleA) (Fin 0)"
  "js_lt (needsLoveCompare exampleA exampleB90) (Fin 0)"
  "js_gt (needsLoveCompare exampleB90 exampleA) (Fin 0)"
  "needsLoveCompare (exampleTwin name) (exampleTwin name') = Fin (- 1)"
proof -
  show "needsLoveCompare exampleA exampleB95 = Fin 1"
    by (simp add: needsLoveCompare_cases example_windows example_visits)
  show "js_gt (needsLoveCompare exampleB95 exampleA) (Fin 0)"
    unfolding needsLoveCompare_outside(3) [OF example_windows(2)]
    by (simp add: exampleA_ratio exampleB95_ratio js_gt_def)
  show "js_lt (needsLoveCompare exampleA exampleB90) (Fin 0)"
    unfolding needsLoveCompare_outside(2) [OF example_windows(3)]
    by (simp add: exampleA_ratio exampleB90_ratio)
  show "js_gt (needsLoveCompare exampleB90 exampleA) (Fin 0)"
    unfolding needsLoveCompare_outside(3) [OF example_windows(4)]
    by (simp add: exampleA_ratio exampleB90_ratio js_gt_def)
  show "needsLoveCompare (exampleTwin name) (exampleTwin name') = Fin (- 1)"
    by (simp add: needsLoveCompare_cases example_windows exampleTwin_visits js_gt_def)
qed

lemma js_lt_imp_le: "js_lt a b \<Longrightarrow> js_le a b"
  by (cases a; cases b) (auto simp: js_le_def)

lemma not_js_lt_imp_le: "a \<noteq> NaN \<Longrightarrow> b \<noteq> NaN \<Longrightarrow> \<not> js_lt a b \<Longrightarrow> js_le b a"
  by (simp add: js_le_def)

lemma js_le_trans: "js_le a b \<Longrightarrow> js_le b c \<Longrightarrow> js_le a c"
  by (cases a; cases b; cases c) (auto simp: js_le_def)

text \<open>
  C1, as the code has it. In the comparator of \<^verbatim>\<open>getTopOriginsThatNeedSomeLove\<close>,
  whenever the quotient of the two need ratios, as it is computed, lies in
  \<open>[0.75, 1]\<close>, the result depends on the visits only: it is \<open>1\<close>, a positive number,
  when \<open>a\<close> has more visits than \<open>b\<close>, and \<open>-1\<close>, a negative number, otherwise. On a
  list of two records the sort calls the comparator on the later and the earlier one;
  when their quotient is in the window, the function returns the record with fewer
  visits first (the later one when the visits are equal). For A (time 100, 10 visits)
  and B (time 95, 8 visits) the comparator, called on A and B, is \<open>1\<close>, and the list
  of B and A is returned with B before A.
\<close>

theorem needsLoveCompare_close_ratios:
  "(within_closed_interval (3 / 4) 1 (ratioComparison a b) \<longrightarrow>
      (js_gt (numberOfVisits (originVisitData a)) (numberOfVisits (originVisitData b)) \<longrightarrow>
         needsLoveCompare a b = Fin 1 \<and> js_gt (needsLoveCompare a b) (Fin 0)) \<and>
      (\<not> js_gt (numberOfVisits (originVisitData a)) (numberOfVisits (originVisitData b)) \<longrightarrow>
         needsLoveCompare a b = Fin (- 1) \<and> js_lt (needsLoveCompare a b) (Fin 0)))
   \<and> (within_closed_interval (3 / 4) 1 (ratioComparison y x) \<longrightarrow>
        returned (getTopOriginsThatNeedSomeLove n (Some [x, y]))
          = Some (take n
              (if js_gt (numberOfVisits (originVisitData y)) (numberOfVisits (originVisitData x))
               then [x, y] else [y, x])))
   \<and> needsLoveCompare exampleA exampleB95 = Fin 1
   \<and> returned (getTopOriginsThatNeedSomeLove 2 (Some [exampleB95, exampleA]))
       = Some [exampleB95, exampleA]"
proof -
  have pair: "returned (getTopOriginsThatNeedSomeLove n (Some [x, y]))
      = Some (take n
          (if js_gt (numberOfVisits (originVisitData y)) (numberOfVisits (originVisitData x))
           then [x, y] else [y, x]))"
    if "within_closed_interval (3 / 4) 1 (ratioComparison y x)"
    using that
    by (simp add: getTopOriginsThatNeedSomeLove_def Let_def js_sort_two needsLoveCompare_cases
        min_def)
  have gen: "(js_gt (numberOfVisits (originVisitData a)) (numberOfVisits (originVisitData b)) \<longrightarrow>
         needsLoveCompare a b = Fin 1 \<and> js_gt (needsLoveCompare a b) (Fin 0)) \<and>
      (\<not> js_gt (numberOfVisits (originVisitData a)) (numberOfVisits (originVisitData b)) \<longrightarrow>
         needsLoveCompare a b = Fin (- 1) \<and> js_lt (needsLoveCompare a b) (Fin 0))"
    if "within_closed_interval (3 / 4) 1 (ratioComparison a b)"
    using that by (simp add: needsLoveCompare_cases js_gt_def)
  have "returned (getTopOriginsThatNeedSomeLove 2 (Some [exampleB95, exampleA]))
      = Some [exampleB95, exampleA]"
    by (simp add: getTopOriginsThatNeedSomeLove_def Let_def js_sort_two example_compares(1))
  then show ?thesis
    using gen pair example_compares(1) by blast
qed

theorem needsLoveCompare_close_ratios_witness:
  "within_closed_interval (3 / 4) 1 (ratioComparison exampleA exampleB95)
   \<and> js_gt (numberOfVisits (originVisitData exampleA)) (numberOfVisits (originVisitData exampleB95))
   \<and> js_gt (needsLoveCompare exampleA exampleB95) (Fin 0)
   \<and> within_closed_interval (3 / 4) 1 (ratioComparison (exampleTwin ''x'') (exampleTwin ''y''))
   \<and> \<not> js_gt (numberOfVisits (originVisitData (exampleTwin ''x'')))
        (numberOfVisits (originVisitData (exampleTwin ''y'')))
   \<and> needsLoveCompare (exampleTwin ''x'') (exampleTwin ''y'') = Fin (- 1)
   \<and> returned (getTopOriginsThatNeedSomeLove 2 (Some [exampleB95, exampleA]))
       = Some [exampleB95, exampleA]
   \<and> returned (getTopOriginsThatNeedSomeLove 2 (Some [exampleTwin ''y'', exampleTwin ''x'']))
       = Some [exampleTwin ''x'', exampleTwin ''y'']"
proof -
  note w1 = example_windows(1)
  note v1 = example_visits(1)
  have w2: "within_closed_interval (3 / 4) 1
      (ratioComparison (exampleTwin ''x'') (exampleTwin ''y''))"
    by (rule example_windows(5))
  have v2: "\<not> js_gt (numberOfVisits (originVisitData (exampleTwin ''x'')))
      (numberOfVisits (originVisitData (exampleTwin ''y'')))"
    by (simp add: exampleTwin_visits js_gt_def)
  have r1: "js_gt (needsLoveCompare exampleA exampleB95) (Fin 0)"
    using needsLoveCompare_close_ratios [of exampleA exampleB95] w1 v1 by blast
  have r2: "needsLoveCompare (exampleTwin ''x'') (exampleTwin ''y'') = Fin (- 1)"
    using needsLoveCompare_close_ratios [of "exampleTwin ''x''" "exampleTwin ''y''"] w2 v2
    by blast
  have "returned (getTopOriginsThatNeedSomeLove 2 (Some [exampleB95, exampleA]))
      = Some (take 2
          (if js_gt (numberOfVisits (originVisitData exampleA))
                (numberOfVisits (originVisitData exampleB95))
           then [exampleB95, exampleA] else [exampleA, exampleB95]))"
    using needsLoveCompare_close_ratios [of _ _ exampleA exampleB95 2] w1 by blast
  then have r3: "returned (getTopOriginsThatNeedSomeLove 2 (Some [exampleB95, exampleA]))
      = Some [exampleB95, exampleA]"
    using v1 by simp
  have "returned (getTopOriginsThatNeedSomeLove 2 (Some [exampleTwin ''y'', exampleTwin ''x'']))
      = Some (take 2
          (if js_gt (numberOfVisits (originVisitData (exampleTwin ''x'')))
                (numberOfVisits (originVisitData (exampleTwin ''y'')))
           then [exampleTwin ''y'', exampleTwin ''x'']
           else [exampleTwin ''x'', exampleTwin ''y'']))"
    using needsLoveCompare_close_ratios [of _ _ "exampleTwin ''x''" "exampleTwin ''y''" 2] w2
    by blast
  then have r4: "returned (getTopOriginsThatNeedSomeLove 2
      (Some [exampleTwin ''y'', exampleTwin ''x''])) = Some [exampleTwin ''x'', exampleTwin ''y'']"
    using v2 by simp
  show ?thesis
    using w1 v1 r1 w2 v2 r2 r3 r4 by blast
qed

text \<open>
  C1, as the specification states it, fails in its last clause. The quotient of A and
  B is in the window and A has more visits, but B is not placed before A: called on
  B and A the comparator is positive as well (the quotient \<open>1.1875\<close> is outside the
  window and the difference is \<open>1.875\<close>), and the list of A and B is returned with A
  first.
\<close>

theorem needsLoveCompare_close_ratios_counterexample:
  "within_closed_interval (3 / 4) 1 (ratioComparison exampleA exampleB95)
   \<and> js_gt (numberOfVisits (originVisitData exampleA)) (numberOfVisits (originVisitData exampleB95))
   \<and> js_gt (needsLoveCompare exampleB95 exampleA) (Fin 0)
   \<and> returned (getTopOriginsThatNeedSomeLove 2 (Some [exampleA, exampleB95]))
       = Some [exampleA, exampleB95]"
proof -
  have "\<not> js_lt (needsLoveCompare exampleB95 exampleA) (Fin 0)"
    using example_compares(2) by (cases "needsLoveCompare exampleB95 exampleA") (auto simp: js_gt_def)
  then have "returned (getTopOriginsThatNeedSomeLove 2 (Some [exampleA, exampleB95]))
      = Some [exampleA, exampleB95]"
    by (simp add: getTopOriginsThatNeedSomeLove_def Let_def js_sort_two)
  then show ?thesis
    using example_windows(1) example_visits(1) example_compares(2) by blast
qed

text \<open>
  Inserting a record into a part that is in descending order of need ratio from its
  end (the order the sort keeps it in) keeps the order, when the quotient of the
  record with each record of the part is outside the window: the comparator is then
  negative exactly when the record inserted has the smaller need ratio.
\<close>

lemma sorted_js_insert_needRatio:
  assumes "needsLoveRatio x \<noteq> NaN"
    and "\<forall>y\<in>set ys. needsLoveRatio y \<noteq> NaN
           \<and> \<not> within_closed_interval (3 / 4) 1 (ratioComparison x y)"
    and "sorted_wrt (\<lambda>a b. js_le (needsLoveRatio b) (needsLoveRatio a)) ys"
  shows "sorted_wrt (\<lambda>a b. js_le (needsLoveRatio b) (needsLoveRatio a))
           (js_insert needsLoveCompare x ys)"
  using assms
proof (induction ys)
  case Nil
  then show ?case by simp
next
  case (Cons y ys)
  have y: "needsLoveRatio y \<noteq> NaN"
    and out: "\<not> within_closed_interval (3 / 4) 1 (ratioComparison x y)"
    using Cons.prems(2) by auto
  have tail: "\<forall>z\<in>set ys. js_le (needsLoveRatio z) (needsLoveRatio y)"
    using Cons.prems(3) by simp
  have IH: "sorted_wrt (\<lambda>a b. js_le (needsLoveRatio b) (needsLoveRatio a))
      (js_insert needsLoveCompare x ys)"
    using Cons by simp
  show ?case
  proof (cases "js_lt (needsLoveCompare x y) (Fin 0)")
    case True
    then have "js_lt (needsLoveRatio x) (needsLoveRatio y)"
      unfolding needsLoveCompare_outside(2) [OF out] .
    then have "js_le (needsLoveRatio x) (needsLoveRatio y)"
      by (rule js_lt_imp_le)
    then show ?thesis
      using True IH tail by (simp add: set_js_insert)
  next
    case False
    then have "\<not> js_lt (needsLoveRatio x) (needsLoveRatio y)"
      unfolding needsLoveCompare_outside(2) [OF out] .
    then have xy: "js_le (needsLoveRatio y) (needsLoveRatio x)"
      by (rule not_js_lt_imp_le [OF Cons.prems(1) y])
    have "\<forall>z\<in>set ys. js_le (needsLoveRatio z) (needsLoveRatio x)"
      using tail xy js_le_trans by blast
    then show ?thesis
      using False xy Cons.prems(3) by simp
  qed
qed

lemma sorted_foldl_needRatio:
  assumes "sorted_wrt (\<lambda>a b. js_le (needsLoveRatio b) (needsLoveRatio a)) acc"
    and "\<forall>d\<in>set acc \<union> set l. needsLoveRatio d \<noteq> NaN"
    and "\<forall>x\<in>set l. \<forall>y\<in>set acc. \<not> within_closed_interval (3 / 4) 1 (ratioComparison x y)"
    and "pairwiseApart l"
  shows "sorted_wrt (\<lambda>a b. js_le (needsLoveRatio b) (needsLoveRatio a))
           (foldl (\<lambda>sortedPart x. js_insert needsLoveCompare x sortedPart) acc l)"
  using assms
proof (induction l arbitrary: acc)
  case Nil
  then show ?case by simp
next
  case (Cons x l)
  have "sorted_wrt (\<lambda>a b. js_le (needsLoveRatio b) (needsLoveRatio a))
      (js_insert needsLoveCompare x acc)"
    using Cons.prems(1,2,3) by (intro sorted_js_insert_needRatio) auto
  moreover have "\<forall>d\<in>set (js_insert needsLoveCompare x acc) \<union> set l. needsLoveRatio d \<noteq> NaN"
    using Cons.prems(2) by (auto simp: set_js_insert)
  moreover have "\<forall>x'\<in>set l. \<forall>y\<in>set (js_insert needsLoveCompare x acc).
      \<not> within_closed_interval (3 / 4) 1 (ratioComparison x' y)"
    using Cons.prems(3,4) by (auto simp: set_js_insert list_all_iff apart_def)
  moreover have "pairwiseApart l"
    using Cons.prems(4) by simp
  ultimately show ?case
    using Cons.IH by simp
qed

lemma sorted_js_sort_needRatio:
  assumes "pairwiseApart l" and "list_all (\<lambda>d. needsLoveRatio d \<noteq> NaN) l"
  shows "sortedAscendingByNeedRatio (js_sort needsLoveCompare l)"
proof -
  have "sorted_wrt (\<lambda>a b. js_le (needsLoveRatio b) (needsLoveRatio a))
      (foldl (\<lambda>sortedPart x. js_insert needsLoveCompare x sortedPart) [] l)"
    using assms by (intro sorted_foldl_needRatio) (auto simp: list_all_iff)
  then show ?thesis
    by (simp add: sortedAscendingByNeedRatio_def js_sort_def sorted_wrt_rev)
qed

lemma sortedAscendingByNeedRatio_take:
  "sortedAscendingByNeedRatio l \<Longrightarrow> sortedAscendingByNeedRatio (take k l)"
  unfolding sortedAscendingByNeedRatio_def by (rule sorted_wrt_take)

lemma example_apart: "apart exampleA exampleB90" "apart exampleB90 exampleA"
  by (simp_all add: apart_def example_windows)

text \<open>
  C8, as the code has it. Whenever the quotient of the two need ratios, as it is
  computed, is not in \<open>[0.75, 1]\<close>, the comparator returns the difference of the need
  ratios: it is negative exactly when the ratio of \<open>a\<close> is the smaller one and positive
  exactly when it is the larger one. A list of two records at least, in which every
  two records have their quotient outside the window in both orders and no need ratio
  is \<^verbatim>\<open>NaN\<close>, is returned by \<^verbatim>\<open>getTopOriginsThatNeedSomeLove\<close> in ascending order of
  the need ratio. For A (time 100, 10 visits, ratio 10) and B (time 90, 5 visits,
  ratio 18) both quotients are outside the window and A is returned before B in
  whichever order the two are supplied.
\<close>

theorem getTopOriginsThatNeedSomeLove_outside_window:
  "(\<not> within_closed_interval (3 / 4) 1 (ratioComparison a b) \<longrightarrow>
      needsLoveCompare a b = binary64 (js_sub (needsLoveRatio a) (needsLoveRatio b)) \<and>
      js_lt (needsLoveCompare a b) (Fin 0) = js_lt (needsLoveRatio a) (needsLoveRatio b) \<and>
      js_gt (needsLoveCompare a b) (Fin 0) = js_gt (needsLoveRatio a) (needsLoveRatio b))
   \<and> (2 \<le> length l \<and> pairwiseApart l \<and> list_all (\<lambda>d. needsLoveRatio d \<noteq> NaN) l \<longrightarrow>
        (\<exists>r. returned (getTopOriginsThatNeedSomeLove n (Some l)) = Some r
           \<and> sortedAscendingByNeedRatio r \<and> length r = min n (length l)))
   \<and> needsLoveRatio exampleA = Fin 10 \<and> needsLoveRatio exampleB90 = Fin 18
   \<and> apart exampleA exampleB90
   \<and> returned (getTopOriginsThatNeedSomeLove 2 (Some [exampleA, exampleB90]))
       = Some [exampleA, exampleB90]
   \<and> returned (getTopOriginsThatNeedSomeLove 2 (Some [exampleB90, exampleA]))
       = Some [exampleA, exampleB90]"
proof -
  have lists: "\<exists>r. returned (getTopOriginsThatNeedSomeLove n (Some l)) = Some r
      \<and> sortedAscendingByNeedRatio r \<and> length r = min n (length l)"
    if "2 \<le> length l" "pairwiseApart l" "list_all (\<lambda>d. needsLoveRatio d \<noteq> NaN) l"
  proof -
    let ?s = "js_sort needsLoveCompare l"
    have ret: "returned (getTopOriginsThatNeedSomeLove n (Some l))
        = Some (take (min n (length ?s)) ?s)"
      using that(1) by (simp add: getTopOriginsThatNeedSomeLove_def Let_def)
    have "sortedAscendingByNeedRatio (take (min n (length ?s)) ?s)"
      using that(2,3) by (intro sortedAscendingByNeedRatio_take sorted_js_sort_needRatio)
    moreover have "length (take (min n (length ?s)) ?s) = min n (length l)"
      by (simp add: length_js_sort)
    ultimately show ?thesis using ret by blast
  qed
  have ab: "returned (getTopOriginsThatNeedSomeLove 2 (Some [exampleA, exampleB90]))
      = Some [exampleA, exampleB90]"
  proof -
    have "\<not> js_lt (needsLoveCompare exampleB90 exampleA) (Fin 0)"
      using example_compares(4)
      by (cases "needsLoveCompare exampleB90 exampleA") (auto simp: js_gt_def)
    then show ?thesis
      by (simp add: getTopOriginsThatNeedSomeLove_def Let_def js_sort_two)
  qed
  have ba: "returned (getTopOriginsThatNeedSomeLove 2 (Some [exampleB90, exampleA]))
      = Some [exampleA, exampleB90]"
    using example_compares(3)
    by (simp add: getTopOriginsThatNeedSomeLove_def Let_def js_sort_two)
  show ?thesis
    using needsLoveCompare_outside [of a b] lists ab ba exampleA_ratio exampleB90_ratio
      example_apart(1)
    by blast
qed

theorem getTopOriginsThatNeedSomeLove_outside_window_witness:
  "\<not> within_closed_interval (3 / 4) 1 (ratioComparison exampleA exampleB90)
   \<and> js_lt (needsLoveCompare exampleA exampleB90) (Fin 0)
   \<and> js_lt (needsLoveRatio exampleA) (needsLoveRatio exampleB90)
   \<and> 2 \<le> length [exampleB90, exampleA]
   \<and> pairwiseApart [exampleB90, exampleA]
   \<and> list_all (\<lambda>d. needsLoveRatio d \<noteq> NaN) [exampleB90, exampleA]
   \<and> (\<exists>r. returned (getTopOriginsThatNeedSomeLove 1 (Some [exampleB90, exampleA])) = Some r
         \<and> sortedAscendingByNeedRatio r
         \<and> length r = min 1 (length [exampleB90, exampleA]))"
proof -
  note w = example_windows(3)
  have lt: "js_lt (needsLoveRatio exampleA) (needsLoveRatio exampleB90)"
    by (simp add: exampleA_ratio exampleB90_ratio)
  have c: "js_lt (needsLoveCompare exampleA exampleB90) (Fin 0)"
    using getTopOriginsThatNeedSomeLove_outside_window [of exampleA exampleB90] w lt by blast
  have h1: "2 \<le> length [exampleB90, exampleA]" by simp
  have h2: "pairwiseApart [exampleB90, exampleA]"
    by (simp add: example_apart)
  have h3: "list_all (\<lambda>d. needsLoveRatio d \<noteq> NaN) [exampleB90, exampleA]"
    by (simp add: exampleA_ratio exampleB90_ratio)
  have "\<exists>r. returned (getTopOriginsThatNeedSomeLove 1 (Some [exampleB90, exampleA])) = Some r
      \<and> sortedAscendingByNeedRatio r \<and> length r = min 1 (length [exampleB90, exampleA])"
    using getTopOriginsThatNeedSomeLove_outside_window [of _ _ "[exampleB90, exampleA]" 1]
      h1 h2 h3 by blast
  then show ?thesis
    using w c lt h1 h2 h3 by blast
qed

text \<open>
  C8, as the specification states it, fails. The quotient of B (time 95, 8 visits,
  ratio 11.875) and A (ratio 10) is \<open>1.1875\<close>, outside the window, and A has the smaller
  need ratio, but the list of B and A is returned with B first: the sort calls the
  comparator on A and B, whose quotient is inside the window.
\<close>

theorem getTopOriginsThatNeedSomeLove_outside_window_counterexample:
  "\<not> within_closed_interval (3 / 4) 1 (ratioComparison exampleB95 exampleA)
   \<and> js_lt (needsLoveRatio exampleA) (needsLoveRatio exampleB95)
   \<and> returned (getTopOriginsThatNeedSomeLove 2 (Some [exampleB95, exampleA]))
       = Some [exampleB95, exampleA]"
proof -
  have "js_lt (needsLoveRatio exampleA) (needsLoveRatio exampleB95)"
    by (simp add: exampleA_ratio exampleB95_ratio)
  moreover have "returned (getTopOriginsThatNeedSomeLove 2 (Some [exampleB95, exampleA]))
      = Some [exampleB95, exampleA]"
    by (simp add: getTopOriginsThatNeedSomeLove_def Let_def js_sort_two example_compares(1))
  ultimately show ?thesis
    using example_windows(2) by blast
qed

text \<open>
  C10. The comparator is not antisymmetric: there are two records, with equal need
  ratios and equal visits, that it puts each before the other. The result is negative
  for \<open>(a, b)\<close> and for \<open>(b, a)\<close>, so it is not a consistent ordering.
\<close>

theorem needsLoveCompare_not_antisymmetric:
  "\<exists>a b. origin a \<noteq> origin b
     \<and> needsLoveRatio a = needsLoveRatio b
     \<and> numberOfVisits (originVisitData a) = numberOfVisits (originVisitData b)
     \<and> js_lt (needsLoveCompare a b) (Fin 0)
     \<and> js_lt (needsLoveCompare b a) (Fin 0)"
proof -
  let ?a = "exampleTwin ''x''" and ?b = "exampleTwin ''y''"
  have "origin ?a \<noteq> origin ?b"
    by (simp add: exampleTwin_def)
  moreover have "needsLoveRatio ?a = needsLoveRatio ?b"
    by (simp add: exampleTwin_ratio)
  moreover have "numberOfVisits (originVisitData ?a) = numberOfVisits (originVisitData ?b)"
    by (simp add: exampleTwin_visits)
  moreover have "js_lt (needsLoveCompare ?a ?b) (Fin 0)"
    by (simp add: example_compares(5))
  moreover have "js_lt (needsLoveCompare ?b ?a) (Fin 0)"
    by (simp add: example_compares(5))
  ultimately show ?thesis by blast
qed

section \<open>Properties of the top-origins functions\<close>

lemma valid_time:
  "valid_origin_data d \<Longrightarrow> \<exists>t. monetizedTimeSpent (originVisitData d) = Fin t"
  by (auto simp: valid_origin_data_def split: jsnum.splits)

lemma valid_examples:
  "valid_origin_data exampleA" "valid_origin_data exampleB90" "valid_origin_data exampleB95"
  by (simp_all add: valid_origin_data_def exampleA_def exampleB90_def exampleB95_def)

text \<open>
  Inserting a valid record into a part of valid records that is in ascending order of
  time from its end (the order the sort keeps it in) keeps the order: the comparator
  \<open>b - a\<close>, called on the record inserted and a record of the part, is negative
  exactly when the record inserted has the larger time.
\<close>

lemma sorted_js_insert_byTime:
  assumes "valid_origin_data x" "\<forall>y\<in>set ys. valid_origin_data y"
    and "sorted_wrt (\<lambda>a b. js_ge (monetizedTimeSpent (originVisitData b))
           (monetizedTimeSpent (originVisitData a))) ys"
  shows "sorted_wrt (\<lambda>a b. js_ge (monetizedTimeSpent (originVisitData b))
           (monetizedTimeSpent (originVisitData a))) (js_insert byTimeSpentCompare x ys)"
  using assms
proof (induction ys)
  case Nil
  then show ?case by simp
next
  case (Cons y ys)
  obtain tx where tx: "monetizedTimeSpent (originVisitData x) = Fin tx"
    using Cons.prems(1) valid_time by blast
  obtain ty where ty: "monetizedTimeSpent (originVisitData y) = Fin ty"
    using Cons.prems(2) valid_time by auto
  have tail: "\<forall>z\<in>set ys. \<exists>tz. monetizedTimeSpent (originVisitData z) = Fin tz \<and> ty \<le> tz"
    using Cons.prems(2,3) ty valid_time
    by (fastforce simp: js_ge_def)
  have IH: "sorted_wrt (\<lambda>a b. js_ge (monetizedTimeSpent (originVisitData b))
      (monetizedTimeSpent (originVisitData a))) (js_insert byTimeSpentCompare x ys)"
    using Cons by simp
  show ?case
  proof (cases "js_lt (byTimeSpentCompare x y) (Fin 0)")
    case True
    then have "ty < tx" by (simp add: byTimeSpentCompare_def tx ty)
    then show ?thesis
      using True IH tail Cons.prems(3)
      by (auto simp: set_js_insert tx ty js_ge_def)
  next
    case False
    then have "tx \<le> ty" by (simp add: byTimeSpentCompare_def tx ty)
    then show ?thesis
      using False tail Cons.prems(3)
      by (auto simp: tx ty js_ge_def)
  qed
qed

lemma sorted_foldl_byTime:
  assumes "sorted_wrt (\<lambda>a b. js_ge (monetizedTimeSpent (originVisitData b))
           (monetizedTimeSpent (originVisitData a))) acc"
    and "\<forall>d\<in>set acc \<union> set l. valid_origin_data d"
  shows "sorted_wrt (\<lambda>a b. js_ge (monetizedTimeSpent (originVisitData b))
           (monetizedTimeSpent (originVisitData a)))
           (foldl (\<lambda>sortedPart x. js_insert byTimeSpentCompare x sortedPart) acc l)"
  using assms
proof (induction l arbitrary: acc)
  case Nil
  then show ?case by simp
next
  case (Cons x l)
  have "sorted_wrt (\<lambda>a b. js_ge (monetizedTimeSpent (originVisitData b))
      (monetizedTimeSpent (originVisitData a))) (js_insert byTimeSpentCompare x acc)"
    using Cons.prems by (intro sorted_js_insert_byTime) auto
  moreover have "\<forall>d\<in>set (js_insert byTimeSpentCompare x acc) \<union> set l. valid_origin_data d"
    using Cons.prems(2) by (auto simp: set_js_insert)
  ultimately show ?case
    using Cons.IH by simp
qed

lemma sorted_js_sort_byTime:
  assumes "\<forall>y\<in>set l. valid_origin_data y"
  shows "sortedDescendingByTime (js_sort byTimeSpentCompare l)"
proof -
  have "sorted_wrt (\<lambda>a b. js_ge (monetizedTimeSpent (originVisitData b))
      (monetizedTimeSpent (originVisitData a)))
      (foldl (\<lambda>sortedPart x. js_insert byTimeSpentCompare x sortedPart) [] l)"
    using assms by (intro sorted_foldl_byTime) auto
  then show ?thesis
    by (simp add: sortedDescendingByTime_def js_sort_def sorted_wrt_rev)
qed

lemma sortedDescendingByTime_take:
  "sortedDescendingByTime l \<Longrightarrow> sortedDescendingByTime (take k l)"
  unfolding sortedDescendingByTime_def by (rule sorted_wrt_take)

text \<open>
  C2. For every list of valid records with two entries at least and every count \<open>n\<close>,
  \<^verbatim>\<open>getTopOriginsByTimeSpent(n)\<close> returns a list that is in descending order of
  \<^verbatim>\<open>originVisitData.monetizedTimeSpent\<close> and has \<open>min n (length l)\<close> entries.
\<close>

theorem getTopOriginsByTimeSpent_sorted:
  assumes "list_all valid_origin_data l" and "2 \<le> length l"
  shows "\<exists>r. returned (getTopOriginsByTimeSpent n (Some l)) = Some r
           \<and> sortedDescendingByTime r
           \<and> length r = min n (length l)"
proof -
  let ?s = "js_sort byTimeSpentCompare l"
  have ret: "returned (getTopOriginsByTimeSpent n (Some l)) = Some (take (min n (length ?s)) ?s)"
    using assms(2) by (simp add: getTopOriginsByTimeSpent_def Let_def)
  have "sortedDescendingByTime ?s"
    using assms(1) by (simp add: sorted_js_sort_byTime list_all_iff)
  then have "sortedDescendingByTime (take (min n (length ?s)) ?s)"
    by (rule sortedDescendingByTime_take)
  moreover have "length (take (min n (length ?s)) ?s) = min n (length l)"
    by (simp add: length_js_sort)
  ultimately show ?thesis using ret by blast
qed

theorem getTopOriginsByTimeSpent_sorted_witness:
  "list_all valid_origin_data [exampleB90, exampleA, exampleB95]
   \<and> 2 \<le> length [exampleB90, exampleA, exampleB95]
   \<and> (\<exists>r. returned (getTopOriginsByTimeSpent 2 (Some [exampleB90, exampleA, exampleB95])) = Some r
         \<and> sortedDescendingByTime r
         \<and> length r = min 2 (length [exampleB90, exampleA, exampleB95]))"
proof -
  have v: "list_all valid_origin_data [exampleB90, exampleA, exampleB95]"
    by (simp add: valid_examples)
  have n: "2 \<le> length [exampleB90, exampleA, exampleB95]"
    by simp
  show ?thesis
    using getTopOriginsByTimeSpent_sorted [OF v n, of 2] v n by blast
qed

text \<open>
  C3, as the code has it. The sort works in place, so a call of
  \<^verbatim>\<open>getTopOriginsByTimeSpent\<close> or \<^verbatim>\<open>getTopOriginsThatNeedSomeLove\<close> leaves the array
  of the Data Provider with the same records (none is changed, added or lost), though
  not in the same order: they are the records supplied, as a multiset. An array with
  one entry at most is left as it was, and so is a missing one.
\<close>

theorem getTopOrigins_supplied_list:
  "suppliedAfter (getTopOriginsByTimeSpent n None) = None
   \<and> suppliedAfter (getTopOriginsThatNeedSomeLove n None) = None
   \<and> (\<exists>l1 l2. suppliedAfter (getTopOriginsByTimeSpent n (Some l)) = Some l1
         \<and> suppliedAfter (getTopOriginsThatNeedSomeLove n (Some l)) = Some l2
         \<and> mset l1 = mset l \<and> mset l2 = mset l
         \<and> (length l \<le> 1 \<longrightarrow> l1 = l \<and> l2 = l))"
  by (simp add: getTopOriginsByTimeSpent_def getTopOriginsThatNeedSomeLove_def Let_def
      mset_js_sort)

theorem getTopOrigins_supplied_list_witness:
  "length [exampleA] \<le> 1
   \<and> suppliedAfter (getTopOriginsByTimeSpent 3 (Some [exampleA])) = Some [exampleA]
   \<and> suppliedAfter (getTopOriginsThatNeedSomeLove 3 (Some [exampleA])) = Some [exampleA]"
proof -
  obtain l1 l2 where
    "suppliedAfter (getTopOriginsByTimeSpent 3 (Some [exampleA])) = Some l1"
    "suppliedAfter (getTopOriginsThatNeedSomeLove 3 (Some [exampleA])) = Some l2"
    "length [exampleA] \<le> 1 \<longrightarrow> l1 = [exampleA] \<and> l2 = [exampleA]"
    using getTopOrigins_supplied_list [of 3 "[exampleA]"] by blast
  then show ?thesis by simp
qed

text \<open>
  C3, as the specification states it, fails: after \<^verbatim>\<open>getTopOriginsByTimeSpent(2)\<close> on
  the array of B (time 90) and A (time 100) the array holds A before B.
\<close>

theorem getTopOrigins_supplied_list_counterexample:
  "suppliedAfter (getTopOriginsByTimeSpent 2 (Some [exampleB90, exampleA]))
     = Some [exampleA, exampleB90]
   \<and> suppliedAfter (getTopOriginsByTimeSpent 2 (Some [exampleB90, exampleA]))
     \<noteq> Some [exampleB90, exampleA]"
  by (simp add: getTopOriginsByTimeSpent_def Let_def js_sort_two byTimeSpentCompare_def
      exampleA_def exampleB90_def)

text \<open>
  C4, as the code has it. \<^verbatim>\<open>getTopOriginsByTimeSpent(n)\<close> returns \<^verbatim>\<open>null\<close> when the
  list is \<^verbatim>\<open>null\<close>; an empty list is an object, hence truthy, and is returned as it
  is, as a list of one entry is.
\<close>

theorem getTopOriginsByTimeSpent_short_lists:
  "returned (getTopOriginsByTimeSpent n None) = None
   \<and> returned (getTopOriginsByTimeSpent n (Some [])) = Some []
   \<and> returned (getTopOriginsByTimeSpent n (Some [d])) = Some [d]
   \<and> suppliedAfter (getTopOriginsByTimeSpent n (Some [d])) = Some [d]"
  by (simp add: getTopOriginsByTimeSpent_def)

text \<open>
  C4, as the specification states it, fails: on the empty list the function does not
  return \<^verbatim>\<open>null\<close>.
\<close>

theorem getTopOriginsByTimeSpent_empty_counterexample:
  "returned (getTopOriginsByTimeSpent 3 (Some [])) = Some []
   \<and> returned (getTopOriginsByTimeSpent 3 (Some [])) \<noteq> None"
  by (simp add: getTopOriginsByTimeSpent_def)

section \<open>Properties of the estimates and percentages\<close>

lemma toFixed2_zero: "toFixed2 P (Fin 0) = ''0.00''"
  by code_simp




text \<open>
  Without a test of the denominator, every positive time over a total of zero gives
  the string \<^verbatim>\<open>Infinity\<close>, and a time of zero over a total of zero the string
  \<^verbatim>\<open>0.00\<close>.
\<close>

lemma percentTimeSpent_over_zero:
  assumes "monetizedTimeSpent (originVisitData d) = Fin t" and "0 \<le> t"
    and "totalTimeSpent s = Fin 0"
  shows "getPercentTimeSpentAtOriginOutOfTotal P (Some d) (Some s)
     = JString (if 0 < t then ''Infinity'' else ''0.00'')"
  using assms
  by (simp add: getPercentTimeSpentAtOriginOutOfTotal_def toPercent_def unNaN_def isNaN_def
      js_inf_def toFixed2_zero)
    (simp add: toFixed2_def)

text \<open>
  C5, at the input where the code departs from it: the origin A has spent 100 ms and
  the total time spent is 0. \<^verbatim>\<open>getPercentTimeSpentAtOriginOutOfTotal\<close> has no test of
  the denominator, the quotient is \<^verbatim>\<open>Infinity\<close>, which \<^verbatim>\<open>unNaN\<close> lets through, and
  the result is the string \<^verbatim>\<open>Infinity\<close>. The two sibling functions test their
  denominator and return the number 0 on the same stats.
\<close>

theorem getPercentTimeSpentAtOriginOutOfTotal_zero_total:
  "getPercentTimeSpentAtOriginOutOfTotal P (Some exampleA) (Some exampleStatsZero)
     = JString ''Infinity''
   \<and> getPercentVisitsToOriginOutOfTotal P (Some exampleA) (Some exampleStatsZero)
     = JNumber (Fin 0)
   \<and> getMonetizedTimeSpentPercent P (Some exampleStatsZero) = JNumber (Fin 0)"
  by (simp add: getPercentTimeSpentAtOriginOutOfTotal_def getPercentVisitsToOriginOutOfTotal_def
      getMonetizedTimeSpentPercent_def toPercent_def unNaN_def isNaN_def toFixed2_def
      exampleA_def exampleStatsZero_def js_inf_def)





text \<open>
  C9. \<^verbatim>\<open>hasUsedWebMonetizationProvider(stats)\<close> returns \<^verbatim>\<open>true\<close> exactly when the
  stats exist and their \<^verbatim>\<open>totalSentAssetsMap\<close> is not null and has one entry at
  least. It returns \<^verbatim>\<open>false\<close> for an empty map and \<^verbatim>\<open>true\<close> for the map with
  the one entry \<^verbatim>\<open>a: 1\<close>.
\<close>

theorem hasUsedWebMonetizationProvider_iff:
  "(hasUsedWebMonetizationProvider stats = Some True)
     = (\<exists>s m. stats = Some s \<and> totalSentAssetsMap s = Some m \<and> 1 \<le> length m)
   \<and> hasUsedWebMonetizationProvider (Some (s0\<lparr>totalSentAssetsMap := Some []\<rparr>)) = Some False
   \<and> hasUsedWebMonetizationProvider (Some (s0\<lparr>totalSentAssetsMap := Some [(''a'', Fin 1)]\<rparr>))
       = Some True"
proof -
  have "(hasUsedWebMonetizationProvider stats = Some True)
     = (\<exists>s m. stats = Some s \<and> totalSentAssetsMap s = Some m \<and> 1 \<le> length m)"
    by (cases stats) (auto simp: hasUsedWebMonetizationProvider_def Suc_le_eq split: option.splits)
  then show ?thesis
    by (simp add: hasUsedWebMonetizationProvider_def)
qed

end
